theory Spec2Isabelle
  imports Complex_Main
begin

section \<open>Numbers and configuration\<close>

text \<open>
  JavaScript numbers are modelled as exact reals: every arithmetic operation of the
  source is the corresponding operation on \<^typ>\<open>real\<close>, without rounding, NaN or
  infinities. Integer-valued numbers (counts, indices) are \<^typ>\<open>int\<close> or \<^typ>\<open>nat\<close>.
  The constants below are the entries of \<^verbatim>\<open>CONFIG\<close> in \<^verbatim>\<open>config.js\<close>.
\<close>

definition PALETTE_SIZE :: real where
  "PALETTE_SIZE = 180"

definition CURVE_RESOLUTION :: nat where
  "CURVE_RESOLUTION = 400"

definition SUPERELLIPSE_N_MIN :: real where
  "SUPERELLIPSE_N_MIN = 1 / 10"

definition SUPERELLIPSE_N_MAX :: real where
  "SUPERELLIPSE_N_MAX = 25"

definition SUPERELLIPSE_TOLERANCE :: real where
  "SUPERELLIPSE_TOLERANCE = 1 / 1000"

definition SUPERELLIPSE_MAX_ITERATIONS :: nat where
  "SUPERELLIPSE_MAX_ITERATIONS = 100"

definition SATURATION_DEFAULT :: real where
  "SATURATION_DEFAULT = 100"

text \<open>
  \<^verbatim>\<open>Math.pow\<close> never throws. On the bases that occur here (non-negative reals) it is
  the real power, with \<^verbatim>\<open>Math.pow(b, 0) = 1\<close> for every base; a negative base with a
  fractional exponent gives NaN in JavaScript, which the real model cannot express,
  and no call of the source reaches it.
\<close>

definition Math_pow :: "real \<Rightarrow> real \<Rightarrow> real" where
  "Math_pow b e = (if e = 0 then 1 else b powr e)"

text \<open>\<^verbatim>\<open>Math.round\<close> rounds half up: it is \<open>\<lfloor>v + 1/2\<rfloor>\<close>.\<close>

definition Math_round :: "real \<Rightarrow> int" where
  "Math_round v = \<lfloor>v + 1 / 2\<rfloor>"

section \<open>SuperellipseMath.findExponent\<close>

text \<open>
  The \<^verbatim>\<open>for\<close> loop of \<^verbatim>\<open>findExponent\<close>; the first argument after the point counts
  the iterations that remain. Falling out of the loop returns the clamped midpoint.
\<close>

fun bisect :: "real \<Rightarrow> real \<Rightarrow> nat \<Rightarrow> real \<Rightarrow> real \<Rightarrow> real" where
  "bisect x y 0 nMin nMax = min ((nMin + nMax) / 2) SUPERELLIPSE_N_MAX"
| "bisect x y (Suc k) nMin nMax =
     (let nMid = (nMin + nMax) / 2;
          f = Math_pow x nMid + Math_pow y nMid - 1
      in if \<bar>f\<bar> < SUPERELLIPSE_TOLERANCE then min nMid SUPERELLIPSE_N_MAX
         else let fMin = Math_pow x nMin + Math_pow y nMin - 1
              in if f * fMin < 0 then bisect x y k nMin nMid
                 else bisect x y k nMid nMax)"

definition findExponent :: "real \<Rightarrow> real \<Rightarrow> real" where
  "findExponent x y =
     (let minThreshold = 1 / 1000; maxThreshold = 99 / 100
      in if x \<le> minThreshold \<and> y \<le> minThreshold then SUPERELLIPSE_N_MIN
         else if x \<le> minThreshold \<or> y \<le> minThreshold then SUPERELLIPSE_N_MIN
         else if x \<ge> maxThreshold \<and> y \<ge> maxThreshold then SUPERELLIPSE_N_MAX
         else bisect x y SUPERELLIPSE_MAX_ITERATIONS SUPERELLIPSE_N_MIN SUPERELLIPSE_N_MAX)"

section \<open>Curve generation\<close>

text \<open>
  A sample as the generation loop builds it, and the finished sample once
  \<^verbatim>\<open>normalizedArcLength\<close> has been assigned to it.
\<close>

record raw_point =
  pt_t :: real
  pt_x :: real
  pt_y :: real
  pixelX :: real
  pixelY :: real
  arcLength :: real

record curve_point = raw_point +
  normalizedArcLength :: real

datatype js_error = TypeError

text \<open>
  The body of the \<^verbatim>\<open>try\<close> block, shared word for word by \<^verbatim>\<open>generateCurvePoints\<close> and
  \<^verbatim>\<open>generateDesaturatedCurve\<close> once \<^verbatim>\<open>px\<close> and \<^verbatim>\<open>py\<close> are computed. Reading
  \<^verbatim>\<open>prevPoint.x\<close> throws when \<^verbatim>\<open>points[i - 1]\<close> is undefined; nothing else in the
  block can throw. The result is the new \<^verbatim>\<open>points\<close> and \<^verbatim>\<open>totalArcLength\<close>.
\<close>

definition samplePoint ::
  "nat \<Rightarrow> real \<Rightarrow> real \<Rightarrow> real \<Rightarrow> raw_point list \<times> real \<Rightarrow> js_error + raw_point list \<times> real" where
  "samplePoint i t px py st =
     (let points = fst st; totalArcLength = snd st;
          minSegmentLength = 1 / 10 ^ 10;
          clampedX = max 0 (min 1 px);
          clampedY = max 0 (min 1 py);
          point = \<lparr>pt_t = t, pt_x = clampedX, pt_y = clampedY,
                   pixelX = clampedX * PALETTE_SIZE,
                   pixelY = (1 - clampedY) * PALETTE_SIZE,
                   arcLength = totalArcLength\<rparr>
      in if i > 0 then
           (if i - 1 < length points then
              let prevPoint = points ! (i - 1);
                  dx = pt_x point - pt_x prevPoint;
                  dy = pt_y point - pt_y prevPoint;
                  segmentLength = sqrt (dx * dx + dy * dy);
                  total' = (if segmentLength > minSegmentLength
                            then totalArcLength + segmentLength else totalArcLength)
              in Inr (points @ [point\<lparr>arcLength := total'\<rparr>], total')
            else Inl TypeError)
         else Inr (points @ [point], totalArcLength))"

text \<open>
  One iteration of the sampling loop: \<open>coords t\<close> is the pair \<^verbatim>\<open>(px, py)\<close>; a thrown
  exception is caught and the iteration skipped (\<^verbatim>\<open>continue\<close>).
\<close>

definition sampleStep ::
  "(real \<Rightarrow> real \<times> real) \<Rightarrow> nat \<Rightarrow> raw_point list \<times> real \<Rightarrow> raw_point list \<times> real" where
  "sampleStep coords i st =
     (let t = ((real i / real CURVE_RESOLUTION) * pi) / 2
      in case samplePoint i t (fst (coords t)) (snd (coords t)) st of
           Inr st' \<Rightarrow> st'
         | Inl e \<Rightarrow> st)"

definition sampleLoop :: "(real \<Rightarrow> real \<times> real) \<Rightarrow> raw_point list \<times> real" where
  "sampleLoop coords = fold (sampleStep coords) [0..<Suc CURVE_RESOLUTION] ([], 0)"

text \<open>The two \<^verbatim>\<open>forEach\<close> passes that assign \<^verbatim>\<open>normalizedArcLength\<close>.\<close>

definition normalizePoints :: "raw_point list \<times> real \<Rightarrow> curve_point list" where
  "normalizePoints st =
     (let points = fst st; totalArcLength = snd st
      in if totalArcLength > 0 then
           map (\<lambda>point. raw_point.extend point
                  (curve_point.fields (arcLength point / totalArcLength))) points
         else
           map (\<lambda>(index, point). raw_point.extend point
                  (curve_point.fields (real index / (real (length points) - 1))))
               (enumerate 0 points))"

definition generateCurvePoints :: "real \<Rightarrow> curve_point list" where
  "generateCurvePoints n =
     normalizePoints
       (sampleLoop (\<lambda>t. (Math_pow (cos t) (2 / n), Math_pow (sin t) (2 / n))))"

definition generateDesaturatedCurve :: "real \<Rightarrow> real \<Rightarrow> curve_point list" where
  "generateDesaturatedCurve nMain saturationPercent =
     (let minCompressionFactor = 5 / 1000;
          a = max minCompressionFactor (saturationPercent / 100);
          nSecondary = 1 + (nMain - 1) * (saturationPercent / 100)
      in normalizePoints
           (sampleLoop (\<lambda>t. (a * Math_pow (cos t) (2 / nSecondary),
                              Math_pow (sin t) (2 / nSecondary)))))"

section \<open>Point lookup\<close>

text \<open>
  The lookups return either one of the samples or a fresh object holding only
  \<^verbatim>\<open>x\<close>, \<^verbatim>\<open>y\<close> and \<^verbatim>\<open>normalizedArcLength\<close>; \<open>None\<close> is \<^verbatim>\<open>undefined\<close>, the value of
  \<^verbatim>\<open>curvePoints[0]\<close> on an empty array.
\<close>

datatype found_point = Sample curve_point | Computed real real real

fun fp_x :: "found_point \<Rightarrow> real" where
  "fp_x (Sample p) = pt_x p"
| "fp_x (Computed px py na) = px"

fun fp_y :: "found_point \<Rightarrow> real" where
  "fp_y (Sample p) = pt_y p"
| "fp_y (Computed px py na) = py"

fun fp_normalizedArcLength :: "found_point \<Rightarrow> real" where
  "fp_normalizedArcLength (Sample p) = normalizedArcLength p"
| "fp_normalizedArcLength (Computed px py na) = na"

definition at_index :: "curve_point list \<Rightarrow> nat \<Rightarrow> found_point option" where
  "at_index curvePoints i =
     (if i < length curvePoints then Some (Sample (curvePoints ! i)) else None)"

text \<open>
  The scan of \<^verbatim>\<open>findPointAtArcLength\<close> over the pairs \<^verbatim>\<open>(curvePoints[i-1], curvePoints[i])\<close>,
  \<open>prevPoint\<close> being the sample before the list that remains.
\<close>

fun scanArcLength :: "real \<Rightarrow> curve_point \<Rightarrow> curve_point list \<Rightarrow> found_point option" where
  "scanArcLength q prevPoint [] = None"
| "scanArcLength q prevPoint (currPoint # rest) =
     (if q \<ge> normalizedArcLength prevPoint \<and> q \<le> normalizedArcLength currPoint then
        let t = (q - normalizedArcLength prevPoint) /
                (normalizedArcLength currPoint - normalizedArcLength prevPoint)
        in Some (Computed (pt_x prevPoint + t * (pt_x currPoint - pt_x prevPoint))
                          (pt_y prevPoint + t * (pt_y currPoint - pt_y prevPoint)) q)
      else scanArcLength q currPoint rest)"

definition findPointAtArcLength :: "real \<Rightarrow> curve_point list \<Rightarrow> found_point option" where
  "findPointAtArcLength q curvePoints =
     (if q \<le> 0 then at_index curvePoints 0
      else if q \<ge> 1 then at_index curvePoints (length curvePoints - 1)
      else case curvePoints of
             [] \<Rightarrow> at_index curvePoints (length curvePoints - 1)
           | first # rest \<Rightarrow>
               (case scanArcLength q first rest of
                  Some r \<Rightarrow> Some r
                | None \<Rightarrow> at_index curvePoints (length curvePoints - 1)))"

text \<open>
  \<^verbatim>\<open>findClosestPoint\<close>. \<^verbatim>\<open>Infinity\<close>, the initial \<^verbatim>\<open>minDistance\<close>, is \<open>None\<close>: every
  distance is below it.
\<close>

definition below :: "real \<Rightarrow> real option \<Rightarrow> bool" where
  "below d m = (case m of None \<Rightarrow> True | Some v \<Rightarrow> d < v)"

definition coarseStep ::
  "real \<Rightarrow> real \<Rightarrow> nat \<times> curve_point \<Rightarrow>
   found_point option \<times> real option \<times> nat \<Rightarrow> found_point option \<times> real option \<times> nat" where
  "coarseStep targetX targetY ip st =
     (let index = fst ip; point = snd ip;
          minDistance = fst (snd st);
          dx = pt_x point - targetX;
          dy = pt_y point - targetY;
          distance = dx * dx + dy * dy
      in if below distance minDistance then (Some (Sample point), Some distance, index)
         else st)"

text \<open>
  The refinement loop runs over \<open>i\<close> with \<open>i + 1 \<le> endIdx \<le> length curvePoints - 1\<close>,
  so both reads \<^verbatim>\<open>curvePoints[i]\<close> and \<^verbatim>\<open>curvePoints[i + 1]\<close> are in range.
\<close>

definition refineStep ::
  "real \<Rightarrow> real \<Rightarrow> curve_point list \<Rightarrow> nat \<Rightarrow>
   found_point option \<times> real option \<Rightarrow> found_point option \<times> real option" where
  "refineStep targetX targetY curvePoints i st =
     (let bestDistance = snd st;
          minSegmentLength = 1 / 10 ^ 10;
          p1 = curvePoints ! i;
          p2 = curvePoints ! (i + 1);
          segmentVecX = pt_x p2 - pt_x p1;
          segmentVecY = pt_y p2 - pt_y p1;
          toTargetX = targetX - pt_x p1;
          toTargetY = targetY - pt_y p1;
          segmentLengthSq = segmentVecX * segmentVecX + segmentVecY * segmentVecY
      in if segmentLengthSq > minSegmentLength then
           let t = max 0 (min 1 ((toTargetX * segmentVecX + toTargetY * segmentVecY) /
                                 segmentLengthSq));
               projectedX = pt_x p1 + t * segmentVecX;
               projectedY = pt_y p1 + t * segmentVecY;
               projectedArcLength = normalizedArcLength p1 +
                 t * (normalizedArcLength p2 - normalizedArcLength p1);
               dx = projectedX - targetX;
               dy = projectedY - targetY;
               distance = dx * dx + dy * dy
           in if below distance bestDistance
              then (Some (Computed projectedX projectedY projectedArcLength), Some distance)
              else st
         else st)"

definition findClosestPoint :: "real \<Rightarrow> real \<Rightarrow> curve_point list \<Rightarrow> found_point option" where
  "findClosestPoint targetX targetY curvePoints =
     (let searchRadius = 3;
          coarse = fold (coarseStep targetX targetY) (enumerate 0 curvePoints)
                     (at_index curvePoints 0, None, 0);
          closestPoint = fst coarse;
          minDistance = fst (snd coarse);
          closestIndex = snd (snd coarse);
          startIdx = max 0 (int closestIndex - searchRadius);
          endIdx = min (int (length curvePoints) - 1) (int closestIndex + searchRadius)
      in fst (fold (refineStep targetX targetY curvePoints) [nat startIdx..<nat endIdx]
                (closestPoint, minDistance)))"

section \<open>ColorMath.hsvToHex\<close>

text \<open>The remainder \<^verbatim>\<open>a % b\<close> of JavaScript truncates the quotient towards zero.\<close>

definition js_rem :: "real \<Rightarrow> real \<Rightarrow> real" where
  "js_rem a b = a - b * of_int (if a / b < 0 then \<lceil>a / b\<rceil> else \<lfloor>a / b\<rfloor>)"

definition hexDigit :: "nat \<Rightarrow> char" where
  "hexDigit d = ''0123456789abcdef'' ! d"

fun toHexNat :: "nat \<Rightarrow> string" where
  "toHexNat n = (if n < 16 then [hexDigit n]
                 else toHexNat (n div 16) @ [hexDigit (n mod 16)])"

definition toString16 :: "int \<Rightarrow> string" where
  "toString16 n = (if n < 0 then CHR ''-'' # toHexNat (nat (- n)) else toHexNat (nat n))"

definition padStart2 :: "string \<Rightarrow> string" where
  "padStart2 s = replicate (2 - length s) CHR ''0'' @ s"

definition upperChar :: "char \<Rightarrow> char" where
  "upperChar c =
     (if c = CHR ''a'' then CHR ''A'' else if c = CHR ''b'' then CHR ''B''
      else if c = CHR ''c'' then CHR ''C'' else if c = CHR ''d'' then CHR ''D''
      else if c = CHR ''e'' then CHR ''E'' else if c = CHR ''f'' then CHR ''F'' else c)"

definition hsvToHex :: "real \<Rightarrow> real \<Rightarrow> real \<Rightarrow> string" where
  "hsvToHex h s100 v100 =
     (let s = s100 / 100; v = v100 / 100;
          c = v * s;
          x = c * (1 - \<bar>js_rem (h / 60) 2 - 1\<bar>);
          m = v - c;
          rgb = (if h < 60 then [c, x, 0]
                 else if h < 120 then [x, c, 0]
                 else if h < 180 then [0, c, x]
                 else if h < 240 then [0, x, c]
                 else if h < 300 then [x, 0, c]
                 else [c, 0, x])
      in CHR ''#'' #
         map upperChar
           (concat (map (\<lambda>val. padStart2 (toString16 (Math_round ((val + m) * 255)))) rgb)))"

section \<open>ColorGenerator\<close>

record swatch =
  hex :: string
  sw_s :: real
  sw_v :: real
  sw_arcLength :: real
  isSelected :: bool
  isBlack :: bool
  isWhite :: bool
  mainS :: real
  mainV :: real
  mainHex :: string

text \<open>
  The parameter object of \<^verbatim>\<open>generatePalette\<close>. \<open>p_colorCount\<close> is the value of
  \<^verbatim>\<open>parseInt(colorCount)\<close>; \<open>p_saturationControl = None\<close> is \<^verbatim>\<open>undefined\<close>.
\<close>

record palette_params =
  p_hue :: real
  p_saturation :: real
  p_value :: real
  p_colorCount :: int
  p_contrast :: real
  p_smartSpacing :: bool
  p_includeBlackWhite :: bool
  p_saturationControl :: "real option"

record palette =
  colors :: "swatch list"
  curvePoints :: "curve_point list"
  desaturatedCurvePoints :: "curve_point list"

text \<open>\<^verbatim>\<open>_calculateArcLength\<close>.\<close>

definition calculateArcLength :: "int \<Rightarrow> int \<Rightarrow> real \<Rightarrow> real \<Rightarrow> bool \<Rightarrow> bool \<Rightarrow> real" where
  "calculateArcLength index totalPts selectedArc contrast useContrast isBefore =
     (if \<not> useContrast then
        (if isBefore then (selectedArc / (of_int totalPts + 1)) * (of_int index + 1)
         else selectedArc + ((1 - selectedArc) / (of_int totalPts + 1)) * (of_int index + 1))
      else
        let normalizedDistance =
              (if isBefore then of_int totalPts - of_int index else of_int index + 1) /
              (of_int totalPts + 1);
            contrastHighThreshold = 1;
            contrastLowThreshold = 1;
            contrastHighExponent = 3 / 2;
            contrastLowExponent = 3 / 2;
            maxContrastRange = 4;
            minContrastRange = 9 / 10;
            poweredDistance =
              (if contrast > contrastHighThreshold then
                 let t = min ((contrast - contrastHighThreshold) / maxContrastRange) 1;
                     linear = normalizedDistance;
                     curved = Math_pow normalizedDistance (1 / contrastHighExponent)
                 in linear * (1 - t) + curved * t
               else if contrast < contrastLowThreshold then
                 let t = min ((contrastLowThreshold - contrast) / minContrastRange) 1;
                     linear = normalizedDistance;
                     curved = Math_pow normalizedDistance contrastLowExponent
                 in linear * (1 - t) + curved * t
               else normalizedDistance)
        in if isBefore then selectedArc - selectedArc * poweredDistance
           else selectedArc + (1 - selectedArc) * poweredDistance)"

text \<open>
  Lines 55 to 88 of \<^verbatim>\<open>generatePalette\<close>: the pair \<^verbatim>\<open>(pointsBefore, pointsAfter)\<close>.
\<close>

definition splitPoints :: "bool \<Rightarrow> bool \<Rightarrow> int \<Rightarrow> real \<Rightarrow> int \<times> int" where
  "splitPoints smartSpacing useContrastMode count selectedArcLength =
     (let pointsToDistribute = count - 1
      in if smartSpacing \<and> \<not> useContrastMode then
           let pointsBefore = Math_round (selectedArcLength * of_int pointsToDistribute);
               pointsAfter = pointsToDistribute - pointsBefore
           in if pointsBefore = 0 \<and> pointsAfter > 1 then (1, pointsAfter - 1)
              else if pointsAfter = 0 \<and> pointsBefore > 1 then (pointsBefore - 1, 1)
              else (pointsBefore, pointsAfter)
         else if count mod 2 = 0 then
           let smallerSegment = \<lfloor>of_int pointsToDistribute / (2 :: real)\<rfloor>;
               largerSegment = \<lceil>of_int pointsToDistribute / (2 :: real)\<rceil>;
               beforeLength = selectedArcLength;
               afterLength = 1 - selectedArcLength
           in if beforeLength \<ge> afterLength then (largerSegment, smallerSegment)
              else (smallerSegment, largerSegment)
         else (pointsToDistribute div 2, pointsToDistribute div 2))"

text \<open>
  The body of the two \<^verbatim>\<open>for\<close> loops that push the swatches before and after the
  anchor. Reading \<^verbatim>\<open>.x\<close> of an undefined lookup result throws.
\<close>

definition sideSwatch ::
  "real \<Rightarrow> curve_point list \<Rightarrow> curve_point list \<Rightarrow> real \<Rightarrow> real \<Rightarrow> bool \<Rightarrow> int \<Rightarrow> bool \<Rightarrow>
   nat \<Rightarrow> js_error + swatch" where
  "sideSwatch h mainCurve desatCurve selectedArcLength contrast useContrastMode totalPts isBefore i =
     (let arc = calculateArcLength (int i) totalPts selectedArcLength contrast useContrastMode isBefore
      in case findPointAtArcLength arc mainCurve of
           None \<Rightarrow> Inl TypeError
         | Some mainPoint \<Rightarrow>
             (let mS = fp_x mainPoint * 100;
                  mV = fp_y mainPoint * 100;
                  mHex = hsvToHex h mS mV
              in case findPointAtArcLength arc desatCurve of
                   None \<Rightarrow> Inl TypeError
                 | Some desaturatedPoint \<Rightarrow>
                     (let s = fp_x desaturatedPoint * 100;
                          v = fp_y desaturatedPoint * 100
                      in Inr \<lparr>hex = hsvToHex h s v, sw_s = s, sw_v = v, sw_arcLength = arc,
                              isSelected = False, isBlack = False, isWhite = False,
                              mainS = mS, mainV = mV, mainHex = mHex\<rparr>)))"

text \<open>Running a loop body over its indices stops at the first exception.\<close>

fun collect :: "(js_error + 'a) list \<Rightarrow> js_error + 'a list" where
  "collect [] = Inr []"
| "collect (r # rs) =
     (case r of
        Inl e \<Rightarrow> Inl e
      | Inr v \<Rightarrow> (case collect rs of Inl e \<Rightarrow> Inl e | Inr vs \<Rightarrow> Inr (v # vs)))"

definition blackSwatch :: swatch where
  "blackSwatch = \<lparr>hex = ''#000000'', sw_s = 0, sw_v = 0, sw_arcLength = 0,
                   isSelected = False, isBlack = True, isWhite = False,
                   mainS = 0, mainV = 0, mainHex = ''#000000''\<rparr>"

definition whiteSwatch :: swatch where
  "whiteSwatch = \<lparr>hex = ''#FFFFFF'', sw_s = 0, sw_v = 100, sw_arcLength = 1,
                   isSelected = False, isBlack = False, isWhite = True,
                   mainS = 0, mainV = 100, mainHex = ''#FFFFFF''\<rparr>"

definition generatePalette :: "palette_params \<Rightarrow> js_error + palette" where
  "generatePalette params =
     (let normalizedX = p_saturation params / 100;
          normalizedY = p_value params / 100;
          n = findExponent normalizedX normalizedY;
          mainCurve = generateCurvePoints n
      in case findClosestPoint normalizedX normalizedY mainCurve of
           None \<Rightarrow> Inl TypeError
         | Some selectedPoint \<Rightarrow>
        (let selectedArcLength = fp_normalizedArcLength selectedPoint;
             count = p_colorCount params;
             useContrastMode = (p_contrast params \<noteq> 1);
             split = splitPoints (p_smartSpacing params) useContrastMode count selectedArcLength;
             pointsBefore = fst split;
             pointsAfter = snd split;
             saturationPercent = (case p_saturationControl params of
                                    Some sc \<Rightarrow> sc | None \<Rightarrow> SATURATION_DEFAULT);
             desatCurve = generateDesaturatedCurve n saturationPercent
         in case collect (map (sideSwatch (p_hue params) mainCurve desatCurve selectedArcLength
                                  (p_contrast params) useContrastMode pointsBefore True)
                              [0..<nat pointsBefore]) of
              Inl e \<Rightarrow> Inl e
            | Inr before \<Rightarrow>
           (case findPointAtArcLength selectedArcLength desatCurve of
              None \<Rightarrow> Inl TypeError
            | Some selectedDesaturatedPoint \<Rightarrow>
           (let selectedS = fp_x selectedDesaturatedPoint * 100;
                selectedV = fp_y selectedDesaturatedPoint * 100;
                selectedMainHex = hsvToHex (p_hue params) (p_saturation params) (p_value params);
                anchor = \<lparr>hex = hsvToHex (p_hue params) selectedS selectedV,
                          sw_s = selectedS, sw_v = selectedV, sw_arcLength = selectedArcLength,
                          isSelected = True, isBlack = False, isWhite = False,
                          mainS = p_saturation params, mainV = p_value params,
                          mainHex = selectedMainHex\<rparr>
            in case collect (map (sideSwatch (p_hue params) mainCurve desatCurve selectedArcLength
                                     (p_contrast params) useContrastMode pointsAfter False)
                                 [0..<nat pointsAfter]) of
                 Inl e \<Rightarrow> Inl e
               | Inr after \<Rightarrow>
                   (let main = before @ [anchor] @ after;
                        all = (if p_includeBlackWhite params
                               then [blackSwatch] @ main @ [whiteSwatch] else main)
                    in Inr \<lparr>colors = all, curvePoints = mainCurve,
                            desaturatedCurvePoints = desatCurve\<rparr>)))))"

section \<open>Application state and the feature toggles\<close>











section \<open>Reference formulas and invariants\<close>

text \<open>
  The per-point formula of contrast mode as the specification words it, to be compared
  with \<open>calculateArcLength\<close>.
\<close>

definition referenceArcLength :: "bool \<Rightarrow> int \<Rightarrow> int \<Rightarrow> real \<Rightarrow> real \<Rightarrow> real" where
  "referenceArcLength isBefore i side anchorArcLength contrast =
     (let normalizedDistance =
            (if isBefore then of_int side - of_int i else of_int i + 1) / (of_int side + 1);
          poweredDistance =
            (if contrast > 1 then
               let t = min ((contrast - 1) / 4) 1
               in (1 - t) * normalizedDistance + t * (normalizedDistance powr (1 / (3 / 2)))
             else if contrast < 1 then
               let t = min ((1 - contrast) / (9 / 10)) 1
               in (1 - t) * normalizedDistance + t * (normalizedDistance powr (3 / 2))
             else normalizedDistance)
      in if isBefore then anchorArcLength - anchorArcLength * poweredDistance
         else anchorArcLength + (1 - anchorArcLength) * poweredDistance)"

text \<open>The smart-spacing split as the specification words it.\<close>

definition smartSplit :: "real \<Rightarrow> int \<Rightarrow> int \<times> int" where
  "smartSplit anchorArcLength count =
     (let pointsBefore = round (anchorArcLength * of_int (count - 1));
          pointsAfter = (count - 1) - pointsBefore
      in if pointsBefore = 0 \<and> pointsAfter > 1 then (pointsBefore + 1, pointsAfter - 1)
         else if pointsAfter = 0 \<and> pointsBefore > 1 then (pointsBefore - 1, pointsAfter + 1)
         else (pointsBefore, pointsAfter))"

text \<open>
  What the sampling loop maintains after \<open>k\<close> iterations: no sample was skipped, the
  stored arc lengths grow from 0 to the running total.
\<close>

definition loop_inv :: "nat \<Rightarrow> raw_point list \<times> real \<Rightarrow> bool" where
  "loop_inv k st =
     (length (fst st) = k \<and> 0 \<le> snd st \<and> (k = 0 \<longrightarrow> snd st = 0) \<and>
      sorted (map arcLength (fst st)) \<and>
      (\<forall>p \<in> set (fst st). 0 \<le> arcLength p \<and> arcLength p \<le> snd st) \<and>
      (k > 0 \<longrightarrow> arcLength (hd (fst st)) = 0 \<and> arcLength (last (fst st)) = snd st))"

text \<open>A curve sample as the data model describes it.\<close>

definition curve_ok :: "curve_point list \<Rightarrow> bool" where
  "curve_ok c = (length c = Suc CURVE_RESOLUTION \<and> sorted (map normalizedArcLength c) \<and>
                 normalizedArcLength (hd c) = 0 \<and> normalizedArcLength (last c) = 1)"

text \<open>The refinement loop keeps a defined best point whose arc length is normalized.\<close>

definition fp_in_unit :: "found_point option \<times> real option \<Rightarrow> bool" where
  "fp_in_unit st = (\<exists>fp d. st = (Some fp, Some d) \<and>
      0 \<le> fp_normalizedArcLength fp \<and> fp_normalizedArcLength fp \<le> 1)"

text \<open>What one of the two side loops of \<^verbatim>\<open>generatePalette\<close> pushes.\<close>

definition side_ok :: "real \<Rightarrow> real \<Rightarrow> bool \<Rightarrow> int \<Rightarrow> bool \<Rightarrow> swatch list \<Rightarrow> bool" where
  "side_ok sel con uc tot isB sws =
     list_all2 (\<lambda>i sw. sw_arcLength sw = calculateArcLength (int i) tot sel con uc isB \<and>
                  \<not> isSelected sw \<and> \<not> isBlack sw \<and> \<not> isWhite sw) [0..<nat tot] sws"



text \<open>The arc length of the anchor: the projection of the chosen colour on its curve.\<close>

definition anchorArcLength :: "palette_params \<Rightarrow> real option" where
  "anchorArcLength params =
     map_option fp_normalizedArcLength
       (findClosestPoint (p_saturation params / 100) (p_value params / 100)
          (generateCurvePoints
             (findExponent (p_saturation params / 100) (p_value params / 100))))"



text \<open>The function \<open>f(n) = x^n + y^n - 1\<close> whose root \<^verbatim>\<open>findExponent\<close> looks for.\<close>

definition residual :: "real \<Rightarrow> real \<Rightarrow> real \<Rightarrow> real" where
  "residual x y n = Math_pow x n + Math_pow y n - 1"





section \<open>The sampling loop never skips a sample\<close>

lemma sampleStep_inv:
  assumes "loop_inv k st"
  shows "loop_inv (Suc k) (sampleStep coords k st)"
proof (cases k)
  case 0
  then have "fst st = []" using assms by (simp add: loop_inv_def)
  then show ?thesis using 0 assms
    by (auto simp: sampleStep_def samplePoint_def loop_inv_def Let_def)
next
  case (Suc j)
  obtain ps tot where st: "st = (ps, tot)" by (cases st)
  have len: "length ps = Suc j" and tot0: "0 \<le> tot" and srt: "sorted (map arcLength ps)"
    and bnd: "\<forall>p \<in> set ps. 0 \<le> arcLength p \<and> arcLength p \<le> tot"
    and hd0: "arcLength (hd ps) = 0" and lst: "arcLength (last ps) = tot"
    using assms Suc st by (simp_all add: loop_inv_def)
  have ne: "ps \<noteq> []" using len by auto
  define t where "t = ((real k / real CURVE_RESOLUTION) * pi) / 2"
  define cx where "cx = max 0 (min 1 (fst (coords t)))"
  define cy where "cy = max 0 (min 1 (snd (coords t)))"
  define seg where "seg = sqrt ((cx - pt_x (ps ! j)) * (cx - pt_x (ps ! j)) +
                                 (cy - pt_y (ps ! j)) * (cy - pt_y (ps ! j)))"
  define tot' where "tot' = (if seg > 1 / 10 ^ 10 then tot + seg else tot)"
  define pnt where "pnt = \<lparr>pt_t = t, pt_x = cx, pt_y = cy, pixelX = cx * PALETTE_SIZE,
                            pixelY = (1 - cy) * PALETTE_SIZE, arcLength = tot'\<rparr>"
  have step: "sampleStep coords k st = (ps @ [pnt], tot')"
    using Suc len
    by (simp add: sampleStep_def samplePoint_def st Let_def t_def cx_def cy_def seg_def
        tot'_def pnt_def)
  have seg0: "0 \<le> seg" unfolding seg_def by simp
  have ge: "tot \<le> tot'" using seg0 by (simp add: tot'_def)
  have "sorted (map arcLength (ps @ [pnt]))"
    using srt bnd ge by (auto simp: sorted_append pnt_def)
  moreover have "\<forall>p \<in> set (ps @ [pnt]). 0 \<le> arcLength p \<and> arcLength p \<le> tot'"
    using bnd ge tot0 by (auto simp: pnt_def)
  moreover have "arcLength (hd (ps @ [pnt])) = 0" using ne hd0 by simp
  moreover have "arcLength (last (ps @ [pnt])) = tot'" by (simp add: pnt_def)
  ultimately show ?thesis unfolding step loop_inv_def using len ge tot0 Suc
    by simp
qed

lemma fold_sampleStep_inv: "loop_inv k (fold (sampleStep coords) [0..<k] ([], 0))"
proof (induction k)
  case 0
  show ?case by (simp add: loop_inv_def)
next
  case (Suc k)
  then show ?case by (simp add: sampleStep_inv)
qed

lemma sampleLoop_inv: "loop_inv (Suc CURVE_RESOLUTION) (sampleLoop coords)"
  unfolding sampleLoop_def by (rule fold_sampleStep_inv)

lemma nal_extend: "normalizedArcLength (raw_point.extend p (curve_point.fields v)) = v"
  by (simp add: raw_point.defs curve_point.defs)

lemma normalize_pos:
  assumes "loop_inv (Suc m) (ps, tot)" "tot > 0"
  shows "length (normalizePoints (ps, tot)) = Suc m"
    and "sorted (map normalizedArcLength (normalizePoints (ps, tot)))"
    and "normalizedArcLength (hd (normalizePoints (ps, tot))) = 0"
    and "normalizedArcLength (last (normalizePoints (ps, tot))) = 1"
proof -
  have len: "length ps = Suc m" and srt: "sorted (map arcLength ps)"
    and hd0: "arcLength (hd ps) = 0" and lst: "arcLength (last ps) = tot"
    using assms by (simp_all add: loop_inv_def)
  have ne: "ps \<noteq> []" using len by auto
  have np: "normalizePoints (ps, tot) =
      map (\<lambda>point. raw_point.extend point (curve_point.fields (arcLength point / tot))) ps"
    using assms(2) by (simp add: normalizePoints_def)
  show "length (normalizePoints (ps, tot)) = Suc m" by (simp add: np len)
  have eq: "map normalizedArcLength (normalizePoints (ps, tot)) = map (\<lambda>p. arcLength p / tot) ps"
    by (simp add: np nal_extend comp_def)
  have "sorted_wrt (\<lambda>p q. arcLength p \<le> arcLength q) ps"
    using srt by (simp add: sorted_map)
  then have "sorted_wrt (\<lambda>p q. arcLength p / tot \<le> arcLength q / tot) ps"
    by (rule sorted_wrt_mono_rel[rotated]) (use assms(2) in \<open>simp add: divide_right_mono\<close>)
  then show "sorted (map normalizedArcLength (normalizePoints (ps, tot)))"
    unfolding eq by (simp add: sorted_map)
  show "normalizedArcLength (hd (normalizePoints (ps, tot))) = 0"
    using ne hd0 by (simp add: np hd_map nal_extend)
  show "normalizedArcLength (last (normalizePoints (ps, tot))) = 1"
    using ne lst assms(2) by (simp add: np last_map nal_extend)
qed

lemma normalize_zero:
  assumes "loop_inv (Suc m) (ps, tot)" "\<not> tot > 0" "m \<ge> 1"
  shows "length (normalizePoints (ps, tot)) = Suc m"
    and "sorted (map normalizedArcLength (normalizePoints (ps, tot)))"
    and "normalizedArcLength (hd (normalizePoints (ps, tot))) = 0"
    and "normalizedArcLength (last (normalizePoints (ps, tot))) = 1"
proof -
  have len: "length ps = Suc m" using assms by (simp add: loop_inv_def)
  have np: "normalizePoints (ps, tot) =
      map (\<lambda>(index, point). raw_point.extend point
             (curve_point.fields (real index / (real (length ps) - 1)))) (enumerate 0 ps)"
    using assms(2) by (simp add: normalizePoints_def)
  show "length (normalizePoints (ps, tot)) = Suc m" by (simp add: np len)
  have "map normalizedArcLength (normalizePoints (ps, tot)) =
        map (\<lambda>ip. real (fst ip) / real m) (enumerate 0 ps)"
    by (simp add: np nal_extend comp_def case_prod_beta len)
  also have "\<dots> = map ((\<lambda>i. real i / real m) \<circ> fst) (enumerate 0 ps)"
    by (simp only: comp_def)
  also have "\<dots> = map (\<lambda>i. real i / real m) (map fst (enumerate 0 ps))"
    by (simp only: map_map)
  also have "\<dots> = map (\<lambda>i. real i / real m) [0..<Suc m]"
    by (simp add: len del: upt_Suc)
  finally have eq: "map normalizedArcLength (normalizePoints (ps, tot)) =
      map (\<lambda>i. real i / real m) [0..<Suc m]" .
  have "sorted_wrt (\<lambda>i j. real i / real m \<le> real j / real m) [0..<Suc m]"
    by (rule sorted_wrt_mono_rel[of _ "(<)"]) (simp_all add: divide_right_mono del: upt_Suc)
  then show "sorted (map normalizedArcLength (normalizePoints (ps, tot)))"
    unfolding eq by (simp add: sorted_map del: upt_Suc)
  have "length (normalizePoints (ps, tot)) = Suc m" by (simp add: np len)
  then have ne: "normalizePoints (ps, tot) \<noteq> []" by auto
  have "normalizedArcLength (hd (normalizePoints (ps, tot))) =
        hd (map normalizedArcLength (normalizePoints (ps, tot)))"
    using ne by (simp add: hd_map)
  also have "\<dots> = 0" unfolding eq by (simp add: upt_conv_Cons del: upt_Suc)
  finally show "normalizedArcLength (hd (normalizePoints (ps, tot))) = 0" .
  have "normalizedArcLength (last (normalizePoints (ps, tot))) =
        last (map normalizedArcLength (normalizePoints (ps, tot)))"
    using ne by (simp add: last_map)
  also have "\<dots> = 1" unfolding eq using assms(3) by simp
  finally show "normalizedArcLength (last (normalizePoints (ps, tot))) = 1" .
qed

lemma curve_ok_sampled: "curve_ok (normalizePoints (sampleLoop coords))"
proof -
  obtain ps tot where st: "sampleLoop coords = (ps, tot)" by (cases "sampleLoop coords")
  have inv: "loop_inv (Suc CURVE_RESOLUTION) (ps, tot)"
    using sampleLoop_inv[of coords] by (simp add: st)
  have m: "CURVE_RESOLUTION \<ge> 1" by (simp add: CURVE_RESOLUTION_def)
  show ?thesis
  proof (cases "tot > 0")
    case True
    show ?thesis unfolding curve_ok_def st
      using normalize_pos[OF inv True] by simp
  next
    case False
    show ?thesis unfolding curve_ok_def st
      using normalize_zero[OF inv False m] by simp
  qed
qed

lemma curve_ok_main: "curve_ok (generateCurvePoints n)"
  unfolding generateCurvePoints_def by (rule curve_ok_sampled)

lemma curve_ok_desaturated: "curve_ok (generateDesaturatedCurve n s)"
  unfolding generateDesaturatedCurve_def Let_def by (rule curve_ok_sampled)

lemma sorted_between:
  fixes xs :: "real list"
  assumes "sorted xs" "v \<in> set xs"
  shows "hd xs \<le> v \<and> v \<le> last xs"
proof -
  have ne: "xs \<noteq> []" using assms(2) by auto
  obtain i where i: "i < length xs" "xs ! i = v" using assms(2) by (auto simp: in_set_conv_nth)
  have "xs ! 0 \<le> xs ! i" using assms(1) i(1) by (simp add: sorted_iff_nth_mono)
  moreover have "xs ! i \<le> xs ! (length xs - 1)"
    using assms(1) i(1) by (simp add: sorted_iff_nth_mono)
  ultimately show ?thesis using ne i(2) by (simp add: hd_conv_nth last_conv_nth)
qed

lemma curve_ok_range:
  assumes "curve_ok c" "p \<in> set c"
  shows "0 \<le> normalizedArcLength p \<and> normalizedArcLength p \<le> 1"
proof -
  have ne: "c \<noteq> []" using assms(2) by auto
  have "hd (map normalizedArcLength c) \<le> normalizedArcLength p \<and>
        normalizedArcLength p \<le> last (map normalizedArcLength c)"
    using assms by (intro sorted_between) (simp_all add: curve_ok_def)
  then show ?thesis using assms(1) ne by (simp add: curve_ok_def hd_map last_map)
qed

lemma curve_ok_nonempty: "curve_ok c \<Longrightarrow> c \<noteq> []"
  by (auto simp: curve_ok_def)

lemma sampleStep_not_skipped:
  "\<exists>st'. samplePoint k t px py (fold (sampleStep coords) [0..<k] ([], 0)) = Inr st'"
proof -
  have "length (fst (fold (sampleStep coords) [0..<k] ([], 0))) = k"
    using fold_sampleStep_inv[of k coords] by (simp add: loop_inv_def)
  then show ?thesis by (simp add: samplePoint_def Let_def)
qed

text \<open>
  Claim C10. Whatever the exponent and the saturation percentage, both generators
  return \<open>CURVE_RESOLUTION + 1 = 401\<close> points: at every iteration the body of the
  \<open>try\<close> block returns normally on the state the loop has reached, so the \<open>catch\<close>
  branch is never taken, no sample is dropped and the curves are non-empty.
\<close>

theorem curves_have_401_points:
  "length (generateCurvePoints n) = CURVE_RESOLUTION + 1 \<and>
   length (generateDesaturatedCurve n saturationPercent) = CURVE_RESOLUTION + 1 \<and>
   CURVE_RESOLUTION + 1 = 401 \<and>
   generateCurvePoints n \<noteq> [] \<and> generateDesaturatedCurve n saturationPercent \<noteq> [] \<and>
   (\<forall>coords k t px py.
      \<exists>st'. samplePoint k t px py (fold (sampleStep coords) [0..<k] ([], 0)) = Inr st')"
proof -
  have 1: "length (generateCurvePoints n) = CURVE_RESOLUTION + 1"
    using curve_ok_main[of n] by (simp add: curve_ok_def)
  have 2: "length (generateDesaturatedCurve n saturationPercent) = CURVE_RESOLUTION + 1"
    using curve_ok_desaturated[of n saturationPercent] by (simp add: curve_ok_def)
  have 3: "generateCurvePoints n \<noteq> []" using 1 by auto
  have 4: "generateDesaturatedCurve n saturationPercent \<noteq> []" using 2 by auto
  show ?thesis using 1 2 3 4 sampleStep_not_skipped
    by (simp add: CURVE_RESOLUTION_def)
qed

theorem curves_have_401_points_witness:
  "length (generateCurvePoints 2) = 401 \<and> length (generateDesaturatedCurve 2 50) = 401"
  using curves_have_401_points [of 2 50] by simp

text \<open>
  Claim C4. For an exponent between 0.1 and 25 the generated curve is non-empty, its
  normalized arc lengths never decrease along the sequence, the first is 0 and the
  last is 1.
\<close>

theorem generateCurvePoints_normalized:
  assumes "1 / 10 \<le> n" "n \<le> 25"
  shows "generateCurvePoints n \<noteq> [] \<and>
         sorted (map normalizedArcLength (generateCurvePoints n)) \<and>
         normalizedArcLength (hd (generateCurvePoints n)) = 0 \<and>
         normalizedArcLength (last (generateCurvePoints n)) = 1"
  using curve_ok_main[of n] curve_ok_nonempty[of "generateCurvePoints n"]
  by (simp add: curve_ok_def)

theorem generateCurvePoints_normalized_witness:
  "(1 :: real) / 10 \<le> 2 \<and> (2 :: real) \<le> 25 \<and>
   generateCurvePoints 2 \<noteq> [] \<and>
   sorted (map normalizedArcLength (generateCurvePoints 2)) \<and>
   normalizedArcLength (hd (generateCurvePoints 2)) = 0 \<and>
   normalizedArcLength (last (generateCurvePoints 2)) = 1"
  using generateCurvePoints_normalized [of 2] by simp

section \<open>The closest point lies on the curve's arc-length range\<close>

lemma fp_range_sample:
  "curve_ok c \<Longrightarrow> i < length c \<Longrightarrow>
   0 \<le> normalizedArcLength (c ! i) \<and> normalizedArcLength (c ! i) \<le> 1"
  using curve_ok_range[of c "c ! i"] nth_mem[of i c] by blast

lemma coarse_fold:
  assumes "set ips \<subseteq> {(i, p). i < length c \<and> p = c ! i}"
    and "st = (Some (Sample (c ! j)), md, j)" "j < length c"
  shows "\<exists>k md'. fold (coarseStep tx ty) ips st = (Some (Sample (c ! k)), md', k) \<and> k < length c
          \<and> (ips \<noteq> [] \<longrightarrow> md' \<noteq> None) \<and> (md \<noteq> None \<longrightarrow> md' \<noteq> None)"
  using assms
proof (induction ips arbitrary: st j md)
  case Nil
  then show ?case by simp
next
  case (Cons ip ips)
  obtain i p where ip: "ip = (i, p)" by (cases ip)
  have i: "i < length c" "p = c ! i" using Cons.prems(1) ip by auto
  have sub: "set ips \<subseteq> {(i, p). i < length c \<and> p = c ! i}" using Cons.prems(1) by auto
  show ?case
  proof (cases "below ((pt_x p - tx) * (pt_x p - tx) + (pt_y p - ty) * (pt_y p - ty)) md")
    case True
    then have "coarseStep tx ty ip st = (Some (Sample (c ! i)),
        Some ((pt_x p - tx) * (pt_x p - tx) + (pt_y p - ty) * (pt_y p - ty)), i)"
      using Cons.prems(2) ip i by (simp add: coarseStep_def Let_def)
    from Cons.IH[OF sub this i(1)] show ?thesis by auto
  next
    case False
    then have md: "md \<noteq> None" by (cases md) (auto simp: below_def)
    have "coarseStep tx ty ip st = st"
      using False Cons.prems(2) ip by (simp add: coarseStep_def Let_def)
    with Cons.IH[OF sub Cons.prems(2) Cons.prems(3)] md show ?thesis by auto
  qed
qed

lemma enumerate_sub: "set (enumerate 0 c) \<subseteq> {(i, p). i < length c \<and> p = c ! i}"
  by (auto simp: in_set_enumerate_eq)

lemma coarse_result:
  assumes "c \<noteq> []"
  shows "\<exists>k d. fold (coarseStep tx ty) (enumerate 0 c) (at_index c 0, None, 0) =
                 (Some (Sample (c ! k)), Some d, k) \<and> k < length c"
proof -
  have l: "0 < length c" using assms by simp
  have a: "(at_index c 0, None, 0) = (Some (Sample (c ! 0)), None, 0)"
    using l by (simp add: at_index_def)
  have ne: "enumerate 0 c \<noteq> []" using assms by (cases c) simp_all
  from coarse_fold[OF enumerate_sub a l, of tx ty] ne show ?thesis by auto
qed

lemma convex_unit:
  fixes a b t :: real
  assumes "0 \<le> a" "a \<le> 1" "0 \<le> b" "b \<le> 1" "0 \<le> t" "t \<le> 1"
  shows "0 \<le> a + t * (b - a) \<and> a + t * (b - a) \<le> 1"
proof -
  have e: "a + t * (b - a) = (1 - t) * a + t * b" by (simp add: algebra_simps)
  have "0 \<le> (1 - t) * a + t * b" using assms by simp
  moreover have "(1 - t) * a + t * b \<le> (1 - t) * 1 + t * 1"
    using assms by (intro add_mono mult_left_mono) simp_all
  ultimately show ?thesis unfolding e by simp
qed

lemma refineStep_cases:
  "refineStep tx ty c i st = st \<or>
   (\<exists>t px py d. 0 \<le> t \<and> t \<le> 1 \<and> refineStep tx ty c i st =
      (Some (Computed px py (normalizedArcLength (c ! i) +
         t * (normalizedArcLength (c ! (i + 1)) - normalizedArcLength (c ! i)))), Some d))"
proof -
  define q where "q = ((tx - pt_x (c ! i)) * (pt_x (c ! (i + 1)) - pt_x (c ! i)) +
      (ty - pt_y (c ! i)) * (pt_y (c ! (i + 1)) - pt_y (c ! i))) /
     ((pt_x (c ! (i + 1)) - pt_x (c ! i)) * (pt_x (c ! (i + 1)) - pt_x (c ! i)) +
      (pt_y (c ! (i + 1)) - pt_y (c ! i)) * (pt_y (c ! (i + 1)) - pt_y (c ! i)))"
  have t: "0 \<le> max 0 (min 1 q)" "max 0 (min 1 q) \<le> 1" by simp_all
  show ?thesis
    unfolding refineStep_def Let_def q_def[symmetric]
    using t by (metis (no_types, lifting))
qed

lemma refineStep_unit:
  assumes "curve_ok c" "Suc i < length c" "fp_in_unit st"
  shows "fp_in_unit (refineStep tx ty c i st)"
proof -
  have r1: "0 \<le> normalizedArcLength (c ! i) \<and> normalizedArcLength (c ! i) \<le> 1"
    using assms by (intro fp_range_sample) simp_all
  have r2: "0 \<le> normalizedArcLength (c ! (i + 1)) \<and> normalizedArcLength (c ! (i + 1)) \<le> 1"
    using assms by (intro fp_range_sample) simp_all
  from refineStep_cases[of tx ty c i st] show ?thesis
  proof
    assume "refineStep tx ty c i st = st"
    then show ?thesis using assms(3) by simp
  next
    assume "\<exists>t px py d. 0 \<le> t \<and> t \<le> 1 \<and> refineStep tx ty c i st =
      (Some (Computed px py (normalizedArcLength (c ! i) +
         t * (normalizedArcLength (c ! (i + 1)) - normalizedArcLength (c ! i)))), Some d)"
    then obtain t px py d where t: "0 \<le> t" "t \<le> 1" and r: "refineStep tx ty c i st =
      (Some (Computed px py (normalizedArcLength (c ! i) +
         t * (normalizedArcLength (c ! (i + 1)) - normalizedArcLength (c ! i)))), Some d)"
      by blast
    have "0 \<le> normalizedArcLength (c ! i) +
         t * (normalizedArcLength (c ! (i + 1)) - normalizedArcLength (c ! i)) \<and>
       normalizedArcLength (c ! i) +
         t * (normalizedArcLength (c ! (i + 1)) - normalizedArcLength (c ! i)) \<le> 1"
      using r1 r2 t by (intro convex_unit) simp_all
    then show ?thesis unfolding r fp_in_unit_def by simp
  qed
qed

lemma refine_fold_unit:
  assumes "curve_ok c" "\<forall>i \<in> set is. Suc i < length c" "fp_in_unit st"
  shows "fp_in_unit (fold (refineStep tx ty c) is st)"
  using assms(2,3)
proof (induction "is" arbitrary: st)
  case Nil
  then show ?case by simp
next
  case (Cons i "is")
  then show ?case using refineStep_unit[OF assms(1)] by simp
qed

lemma findClosestPoint_unit:
  assumes "curve_ok c"
  shows "\<exists>fp. findClosestPoint tx ty c = Some fp \<and>
               0 \<le> fp_normalizedArcLength fp \<and> fp_normalizedArcLength fp \<le> 1"
proof -
  have ne: "c \<noteq> []" using assms by (rule curve_ok_nonempty)
  obtain k d where co: "fold (coarseStep tx ty) (enumerate 0 c) (at_index c 0, None, 0) =
                 (Some (Sample (c ! k)), Some d, k)" and k: "k < length c"
    using coarse_result[OF ne, of tx ty] by blast
  have u0: "fp_in_unit (Some (Sample (c ! k)), Some d)"
    using fp_range_sample[OF assms k] by (simp add: fp_in_unit_def)
  have rng: "\<forall>i \<in> set [nat (max 0 (int k - 3))..<nat (min (int (length c) - 1) (int k + 3))].
               Suc i < length c"
    by auto
  have "fp_in_unit (fold (refineStep tx ty c)
          [nat (max 0 (int k - 3))..<nat (min (int (length c) - 1) (int k + 3))]
          (Some (Sample (c ! k)), Some d))"
    by (rule refine_fold_unit[OF assms rng u0])
  then show ?thesis
    by (auto simp: findClosestPoint_def Let_def co fp_in_unit_def)
qed

section \<open>The shape of a generated palette\<close>

lemma scan_or_last:
  "c \<noteq> [] \<Longrightarrow> \<exists>fp. findPointAtArcLength q c = Some fp"
  by (cases c) (auto simp: findPointAtArcLength_def at_index_def split: option.splits)

lemma sideSwatch_Inr:
  assumes "c1 \<noteq> []" "c2 \<noteq> []"
  shows "\<exists>sw. sideSwatch h c1 c2 sel con uc tot isB i = Inr sw \<and>
          sw_arcLength sw = calculateArcLength (int i) tot sel con uc isB \<and>
          \<not> isSelected sw \<and> \<not> isBlack sw \<and> \<not> isWhite sw"
proof -
  obtain f1 where f1: "findPointAtArcLength (calculateArcLength (int i) tot sel con uc isB) c1 = Some f1"
    using scan_or_last[OF assms(1)] by blast
  obtain f2 where f2: "findPointAtArcLength (calculateArcLength (int i) tot sel con uc isB) c2 = Some f2"
    using scan_or_last[OF assms(2)] by blast
  show ?thesis by (simp add: sideSwatch_def Let_def f1 f2)
qed

lemma collect_all_Inr:
  assumes "\<forall>x \<in> set xs. \<exists>v. f x = Inr v \<and> P x v"
  shows "\<exists>vs. collect (map f xs) = Inr vs \<and> list_all2 P xs vs"
  using assms
proof (induction xs)
  case Nil
  then show ?case by simp
next
  case (Cons x xs)
  then obtain v where v: "f x = Inr v" "P x v" by auto
  from Cons obtain vs where vs: "collect (map f xs) = Inr vs" "list_all2 P xs vs" by auto
  show ?case using v vs by simp
qed

lemma side_loop:
  assumes "c1 \<noteq> []" "c2 \<noteq> []"
  shows "\<exists>sws. collect (map (sideSwatch h c1 c2 sel con uc tot isB) [0..<n]) = Inr sws \<and>
           list_all2 (\<lambda>i sw. sw_arcLength sw = calculateArcLength (int i) tot sel con uc isB \<and>
                        \<not> isSelected sw \<and> \<not> isBlack sw \<and> \<not> isWhite sw) [0..<n] sws"
  by (rule collect_all_Inr) (use sideSwatch_Inr[OF assms] in blast)

lemma generatePalette_shape:
  fixes params :: palette_params
  defines "x \<equiv> p_saturation params / 100" and "y \<equiv> p_value params / 100"
  defines "mainC \<equiv> generateCurvePoints (findExponent x y)"
  shows "\<exists>fp before anchor after.
     findClosestPoint x y mainC = Some fp \<and>
     0 \<le> fp_normalizedArcLength fp \<and> fp_normalizedArcLength fp \<le> 1 \<and>
     side_ok (fp_normalizedArcLength fp) (p_contrast params) (p_contrast params \<noteq> 1)
       (fst (splitPoints (p_smartSpacing params) (p_contrast params \<noteq> 1) (p_colorCount params)
               (fp_normalizedArcLength fp))) True before \<and>
     side_ok (fp_normalizedArcLength fp) (p_contrast params) (p_contrast params \<noteq> 1)
       (snd (splitPoints (p_smartSpacing params) (p_contrast params \<noteq> 1) (p_colorCount params)
               (fp_normalizedArcLength fp))) False after \<and>
     sw_arcLength anchor = fp_normalizedArcLength fp \<and>
     isSelected anchor \<and> \<not> isBlack anchor \<and> \<not> isWhite anchor \<and>
     (\<exists>res. generatePalette params = Inr res \<and>
      colors res = (if p_includeBlackWhite params
                    then [blackSwatch] @ (before @ [anchor] @ after) @ [whiteSwatch]
                    else before @ [anchor] @ after))"
proof -
  define desat where "desat = generateDesaturatedCurve (findExponent x y)
     (case p_saturationControl params of Some sc \<Rightarrow> sc | None \<Rightarrow> SATURATION_DEFAULT)"
  have ok1: "curve_ok mainC" unfolding mainC_def by (rule curve_ok_main)
  have ne1: "mainC \<noteq> []" using ok1 by (rule curve_ok_nonempty)
  have ne2: "desat \<noteq> []" unfolding desat_def by (rule curve_ok_nonempty[OF curve_ok_desaturated])
  obtain fp where fp: "findClosestPoint x y mainC = Some fp"
    and r: "0 \<le> fp_normalizedArcLength fp" "fp_normalizedArcLength fp \<le> 1"
    using findClosestPoint_unit[OF ok1, of x y] by blast
  define sel where "sel = fp_normalizedArcLength fp"
  define con where "con = p_contrast params"
  define pb where "pb = fst (splitPoints (p_smartSpacing params) (con \<noteq> 1) (p_colorCount params) sel)"
  define pa where "pa = snd (splitPoints (p_smartSpacing params) (con \<noteq> 1) (p_colorCount params) sel)"
  obtain before where b: "collect (map (sideSwatch (p_hue params) mainC desat sel con (con \<noteq> 1) pb True)
       [0..<nat pb]) = Inr before" and bo: "side_ok sel con (con \<noteq> 1) pb True before"
    using side_loop[OF ne1 ne2] unfolding side_ok_def by blast
  obtain after where a: "collect (map (sideSwatch (p_hue params) mainC desat sel con (con \<noteq> 1) pa False)
       [0..<nat pa]) = Inr after" and ao: "side_ok sel con (con \<noteq> 1) pa False after"
    using side_loop[OF ne1 ne2] unfolding side_ok_def by blast
  obtain sd where sd: "findPointAtArcLength sel desat = Some sd"
    using scan_or_last[OF ne2] by blast
  define anchor where "anchor = \<lparr>hex = hsvToHex (p_hue params) (fp_x sd * 100) (fp_y sd * 100),
       sw_s = fp_x sd * 100, sw_v = fp_y sd * 100, sw_arcLength = sel,
       isSelected = True, isBlack = False, isWhite = False,
       mainS = p_saturation params, mainV = p_value params,
       mainHex = hsvToHex (p_hue params) (p_saturation params) (p_value params)\<rparr>"
  have gp: "generatePalette params = Inr \<lparr>colors = (if p_includeBlackWhite params
                    then [blackSwatch] @ (before @ [anchor] @ after) @ [whiteSwatch]
                    else before @ [anchor] @ after), curvePoints = mainC,
                    desaturatedCurvePoints = desat\<rparr>"
    unfolding generatePalette_def Let_def
      x_def[symmetric] y_def[symmetric] mainC_def[symmetric] fp option.case
      sel_def[symmetric] con_def[symmetric] desat_def[symmetric]
      pb_def[symmetric] pa_def[symmetric] b a sd sum.case anchor_def[symmetric]
    by simp
  have "sw_arcLength anchor = sel \<and> isSelected anchor \<and> \<not> isBlack anchor \<and> \<not> isWhite anchor"
    by (simp add: anchor_def)
  then show ?thesis
    using fp r bo ao gp unfolding sel_def con_def pb_def pa_def by fastforce
qed

section \<open>Lookup by arc length\<close>

lemma at_index_hd: "c \<noteq> [] \<Longrightarrow> at_index c 0 = Some (Sample (hd c))"
  by (cases c) (simp_all add: at_index_def)

lemma at_index_last: "c \<noteq> [] \<Longrightarrow> at_index c (length c - Suc 0) = Some (Sample (last c))"
  by (simp add: at_index_def last_conv_nth)

text \<open>
  Claim C9. On a non-empty curve \<open>findPointAtArcLength\<close> returns the first sample for
  every query at or below 0 and the last sample for every query at or above 1.
\<close>

theorem findPointAtArcLength_clamps:
  assumes "curve \<noteq> []"
  shows "(q \<le> 0 \<longrightarrow> findPointAtArcLength q curve = Some (Sample (hd curve))) \<and>
         (q \<ge> 1 \<longrightarrow> findPointAtArcLength q curve = Some (Sample (last curve)))"
  using assms by (simp add: findPointAtArcLength_def at_index_hd at_index_last)

theorem findPointAtArcLength_clamps_witness:
  "[\<lparr>pt_t = 0, pt_x = 1, pt_y = 0, pixelX = 180, pixelY = 180, arcLength = 0,
      normalizedArcLength = 0\<rparr>,
    \<lparr>pt_t = pi / 2, pt_x = 0, pt_y = 1, pixelX = 0, pixelY = 0, arcLength = 1,
      normalizedArcLength = 1\<rparr>] \<noteq> [] \<and>
   findPointAtArcLength 0
     [\<lparr>pt_t = 0, pt_x = 1, pt_y = 0, pixelX = 180, pixelY = 180, arcLength = 0,
        normalizedArcLength = 0\<rparr>,
      \<lparr>pt_t = pi / 2, pt_x = 0, pt_y = 1, pixelX = 0, pixelY = 0, arcLength = 1,
        normalizedArcLength = 1\<rparr>] =
     Some (Sample \<lparr>pt_t = 0, pt_x = 1, pt_y = 0, pixelX = 180, pixelY = 180, arcLength = 0,
                    normalizedArcLength = 0\<rparr>) \<and>
   findPointAtArcLength 1
     [\<lparr>pt_t = 0, pt_x = 1, pt_y = 0, pixelX = 180, pixelY = 180, arcLength = 0,
        normalizedArcLength = 0\<rparr>,
      \<lparr>pt_t = pi / 2, pt_x = 0, pt_y = 1, pixelX = 0, pixelY = 0, arcLength = 1,
        normalizedArcLength = 1\<rparr>] =
     Some (Sample \<lparr>pt_t = pi / 2, pt_x = 0, pt_y = 1, pixelX = 0, pixelY = 0, arcLength = 1,
                    normalizedArcLength = 1\<rparr>)"
  using findPointAtArcLength_clamps
    [of "[\<lparr>pt_t = 0, pt_x = 1, pt_y = 0, pixelX = 180, pixelY = 180, arcLength = 0,
            normalizedArcLength = 0\<rparr>,
          \<lparr>pt_t = pi / 2, pt_x = 0, pt_y = 1, pixelX = 0, pixelY = 0, arcLength = 1,
            normalizedArcLength = 1\<rparr>]" 0]
    findPointAtArcLength_clamps
    [of "[\<lparr>pt_t = 0, pt_x = 1, pt_y = 0, pixelX = 180, pixelY = 180, arcLength = 0,
            normalizedArcLength = 0\<rparr>,
          \<lparr>pt_t = pi / 2, pt_x = 0, pt_y = 1, pixelX = 0, pixelY = 0, arcLength = 1,
            normalizedArcLength = 1\<rparr>]" 1]
  by simp

section \<open>The distribution formulas\<close>

text \<open>
  Claim C7. In contrast mode (\<open>contrast \<noteq> 1\<close>) the arc length computed for a point is
  the reference formula: the normalized distance blended with its power warp
  (exponent \<open>1 / 1.5\<close> above 1, \<open>1.5\<close> below 1), mapped back from the anchor.
\<close>

theorem calculateArcLength_contrast:
  assumes "contrast \<noteq> 1"
  shows "calculateArcLength i side a contrast (contrast \<noteq> 1) isBefore =
         referenceArcLength isBefore i side a contrast"
  using assms
  by (simp add: calculateArcLength_def referenceArcLength_def Math_pow_def Let_def mult.commute)

theorem calculateArcLength_contrast_witness:
  "(5 :: real) \<noteq> 1 \<and>
   calculateArcLength 0 4 (1 / 2) 5 (5 \<noteq> (1 :: real)) True = referenceArcLength True 0 4 (1 / 2) 5"
  using calculateArcLength_contrast [of 5 0 4 "1 / 2" True] by simp

lemma Math_round_range:
  assumes "0 \<le> a" "a \<le> 1" "0 \<le> (m::int)"
  shows "0 \<le> Math_round (a * of_int m) \<and> Math_round (a * of_int m) \<le> m"
proof -
  have "0 \<le> a * of_int m" using assms by simp
  moreover have "a * of_int m \<le> of_int m" using assms
    by (simp add: mult_left_le_one_le)
  ultimately show ?thesis unfolding Math_round_def
    by (auto simp: le_floor_iff floor_le_iff)
qed

lemma smart_sides:
  assumes "0 \<le> a" "a \<le> 1" "1 \<le> count"
  shows "0 \<le> fst (splitPoints True False count a) \<and> 0 \<le> snd (splitPoints True False count a) \<and>
         fst (splitPoints True False count a) + snd (splitPoints True False count a) = count - 1 \<and>
         (1 < count - 1 \<longrightarrow> 1 \<le> fst (splitPoints True False count a) \<and>
                              1 \<le> snd (splitPoints True False count a))"
proof -
  define r where "r = Math_round (a * of_int (count - 1))"
  have r: "0 \<le> r" "r \<le> count - 1"
    using Math_round_range[of a "count - 1"] assms by (simp_all add: r_def)
  have sp: "splitPoints True False count a =
        (if r = 0 \<and> count - 1 - r > 1 then (1, count - 1 - r - 1)
         else if count - 1 - r = 0 \<and> r > 1 then (r - 1, 1)
         else (r, count - 1 - r))"
    unfolding splitPoints_def Let_def r_def by simp
  show ?thesis unfolding sp using r by auto
qed

text \<open>
  Claim C5. With smart spacing active and contrast 1 the split is
  \<open>pointsBefore = round (anchorArcLength * (count - 1))\<close>, \<open>pointsAfter\<close> the rest, one
  point being moved when a side is empty and the other holds more than one; for an
  anchor arc length in \<open>[0, 1]\<close> and more than one point to distribute no side is empty.
\<close>

theorem smart_spacing_split:
  assumes "smartSpacing" "contrast = 1"
  shows "splitPoints smartSpacing (contrast \<noteq> 1) count a = smartSplit a count \<and>
         (0 \<le> a \<and> a \<le> 1 \<and> 1 < count - 1 \<longrightarrow>
            1 \<le> fst (splitPoints smartSpacing (contrast \<noteq> 1) count a) \<and>
            1 \<le> snd (splitPoints smartSpacing (contrast \<noteq> 1) count a) \<and>
            fst (splitPoints smartSpacing (contrast \<noteq> 1) count a) +
            snd (splitPoints smartSpacing (contrast \<noteq> 1) count a) = count - 1)"
proof -
  define r where "r = Math_round (a * of_int (count - 1))"
  have rr: "round (a * of_int (count - 1)) = r"
    by (simp add: r_def Math_round_def round_def)
  have sp: "splitPoints True False count a =
        (if r = 0 \<and> count - 1 - r > 1 then (1, count - 1 - r - 1)
         else if count - 1 - r = 0 \<and> r > 1 then (r - 1, 1)
         else (r, count - 1 - r))"
    unfolding splitPoints_def Let_def r_def by simp
  have ss: "smartSplit a count =
        (if r = 0 \<and> count - 1 - r > 1 then (r + 1, count - 1 - r - 1)
         else if count - 1 - r = 0 \<and> r > 1 then (r - 1, count - 1 - r + 1)
         else (r, count - 1 - r))"
    unfolding smartSplit_def Let_def rr by simp
  have "splitPoints True False count a = smartSplit a count"
    unfolding sp ss by auto
  moreover have "0 \<le> a \<and> a \<le> 1 \<and> 1 < count - 1 \<longrightarrow>
            1 \<le> fst (splitPoints True False count a) \<and>
            1 \<le> snd (splitPoints True False count a) \<and>
            fst (splitPoints True False count a) + snd (splitPoints True False count a) = count - 1"
    using smart_sides[of a count] by auto
  ultimately show ?thesis using assms by simp
qed

theorem smart_spacing_split_witness:
  "True \<and> (1 :: real) = 1 \<and>
   splitPoints True ((1 :: real) \<noteq> 1) 10 (1 / 50) = smartSplit (1 / 50) 10 \<and>
   smartSplit (1 / 50) 10 = (1, 8)"
proof -
  have "smartSplit (1 / 50) 10 = (1, 8)"
    by (simp add: smartSplit_def round_def Let_def)
  then show ?thesis using smart_spacing_split [of True 1 10 "1 / 50"] by simp
qed

lemma floor_half: "\<lfloor>of_int m / (2 :: real)\<rfloor> = m div 2"
  using floor_divide_of_int_eq[of m 2, where ?'a = real] by simp

lemma ceiling_half: "\<lceil>of_int m / (2 :: real)\<rceil> = - ((- m) div 2)"
proof -
  have "of_int m / (2 :: real) = of_int m / of_int 2" by simp
  then show ?thesis by (simp only: ceiling_divide_eq_div)
qed

lemma splitPoints_plain:
  "splitPoints False uc count a =
     (if count mod 2 = 0
      then (if 1 - a \<le> a then (- ((- (count - 1)) div 2), (count - 1) div 2)
            else ((count - 1) div 2, - ((- (count - 1)) div 2)))
      else ((count - 1) div 2, (count - 1) div 2))"
  unfolding splitPoints_def Let_def floor_half ceiling_half by simp


lemma split_sides:
  assumes "0 \<le> a" "a \<le> 1" "1 \<le> count"
  shows "0 \<le> fst (splitPoints smart uc count a) \<and> 0 \<le> snd (splitPoints smart uc count a) \<and>
         fst (splitPoints smart uc count a) + snd (splitPoints smart uc count a) = count - 1"
proof (cases "smart \<and> \<not> uc")
  case True
  then show ?thesis using smart_sides[OF assms] by simp
next
  case False
  then have e: "splitPoints smart uc count a = splitPoints False uc count a"
    by (auto simp: splitPoints_def)
  show ?thesis unfolding e splitPoints_plain using assms(3)
    by (simp split: if_splits) presburger
qed

text \<open>
  Claim C6. With smart spacing disabled, an even count splits the \<open>count - 1\<close> points into
  the floor and ceiling halves, the larger one on the side of the anchor with the larger
  arc-length span (before the anchor on a tie); an odd count splits them evenly.
\<close>

theorem centred_split:
  assumes "\<not> smartSpacing"
  shows "(count mod 2 = 0 \<longrightarrow>
            splitPoints smartSpacing useContrastMode count a =
              (if 1 - a \<le> a
               then (\<lceil>of_int (count - 1) / (2 :: real)\<rceil>, \<lfloor>of_int (count - 1) / (2 :: real)\<rfloor>)
               else (\<lfloor>of_int (count - 1) / (2 :: real)\<rfloor>, \<lceil>of_int (count - 1) / (2 :: real)\<rceil>)) \<and>
            \<lceil>of_int (count - 1) / (2 :: real)\<rceil> = \<lfloor>of_int (count - 1) / (2 :: real)\<rfloor> + 1 \<and>
            \<lfloor>of_int (count - 1) / (2 :: real)\<rfloor> + \<lceil>of_int (count - 1) / (2 :: real)\<rceil> = count - 1) \<and>
         (count mod 2 \<noteq> 0 \<longrightarrow>
            fst (splitPoints smartSpacing useContrastMode count a) =
            snd (splitPoints smartSpacing useContrastMode count a) \<and>
            fst (splitPoints smartSpacing useContrastMode count a) +
            snd (splitPoints smartSpacing useContrastMode count a) = count - 1)"
proof -
  have ev: "count mod 2 = 0 \<longrightarrow> - ((- (count - 1)) div 2) = (count - 1) div 2 + 1 \<and>
            (count - 1) div 2 + - ((- (count - 1)) div 2) = count - 1"
    by presburger
  have od: "count mod 2 \<noteq> 0 \<longrightarrow> (count - 1) div 2 + (count - 1) div 2 = count - 1"
    by presburger
  show ?thesis using assms ev od
    unfolding floor_half ceiling_half by (auto simp: splitPoints_plain)
qed

theorem centred_split_witness:
  "\<not> False \<and> (10 :: int) mod 2 = 0 \<and> splitPoints False False 10 (3 / 5) = (5, 4) \<and>
   splitPoints False False 10 (2 / 5) = (4, 5) \<and> splitPoints False True 11 (2 / 5) = (5, 5)"
proof -
  have fl: "\<lfloor>(9 :: real) / 2\<rfloor> = 4" and ce: "\<lceil>(9 :: real) / 2\<rceil> = 5" by simp_all
  show ?thesis
    using centred_split [of False 10 False "3 / 5"] centred_split [of False 10 False "2 / 5"]
      centred_split [of False 11 True "2 / 5"]
    by (simp add: fl ce splitPoints_def)
qed

section \<open>Assembling the palette\<close>

lemma side_ok_length: "side_ok sel con uc tot isB sws \<Longrightarrow> length sws = nat tot"
  by (auto simp: side_ok_def dest: list_all2_lengthD)





lemma black_white_facts:
  "isBlack blackSwatch \<and> \<not> isWhite blackSwatch \<and> \<not> isSelected blackSwatch \<and>
   sw_arcLength blackSwatch = 0 \<and> sw_s blackSwatch = 0 \<and> sw_v blackSwatch = 0 \<and>
   isWhite whiteSwatch \<and> \<not> isBlack whiteSwatch \<and> \<not> isSelected whiteSwatch \<and>
   sw_arcLength whiteSwatch = 1 \<and> sw_s whiteSwatch = 0 \<and> sw_v whiteSwatch = 100"
  by (simp add: blackSwatch_def whiteSwatch_def)

text \<open>
  Claim C8. With the black and white endpoints requested and a count of 10 the palette
  has 12 swatches; the first is the fixed black swatch (arc length 0, unit-square
  coordinates (0, 0)), the last the fixed white swatch (arc length 1, coordinates (0, 1));
  both are constants, independent of the curves.
\<close>

theorem black_white_endpoints:
  assumes "p_includeBlackWhite params" "p_colorCount params = 10"
  shows "\<exists>res. generatePalette params = Inr res \<and> length (colors res) = 12 \<and>
           hd (colors res) = blackSwatch \<and> last (colors res) = whiteSwatch \<and>
           isBlack blackSwatch \<and> sw_arcLength blackSwatch = 0 \<and>
           sw_s blackSwatch / 100 = 0 \<and> sw_v blackSwatch / 100 = 0 \<and>
           isWhite whiteSwatch \<and> sw_arcLength whiteSwatch = 1 \<and>
           sw_s whiteSwatch / 100 = 0 \<and> sw_v whiteSwatch / 100 = 1"
proof -
  obtain fp before anchor after res where
    r: "0 \<le> fp_normalizedArcLength fp" "fp_normalizedArcLength fp \<le> 1"
    and b: "side_ok (fp_normalizedArcLength fp) (p_contrast params) (p_contrast params \<noteq> 1)
       (fst (splitPoints (p_smartSpacing params) (p_contrast params \<noteq> 1) (p_colorCount params)
               (fp_normalizedArcLength fp))) True before"
    and a: "side_ok (fp_normalizedArcLength fp) (p_contrast params) (p_contrast params \<noteq> 1)
       (snd (splitPoints (p_smartSpacing params) (p_contrast params \<noteq> 1) (p_colorCount params)
               (fp_normalizedArcLength fp))) False after"
    and g: "generatePalette params = Inr res"
    and c: "colors res = (if p_includeBlackWhite params
                    then [blackSwatch] @ (before @ [anchor] @ after) @ [whiteSwatch]
                    else before @ [anchor] @ after)"
    using generatePalette_shape[of params] by blast
  have s: "0 \<le> fst (splitPoints (p_smartSpacing params) (p_contrast params \<noteq> 1) 10
               (fp_normalizedArcLength fp)) \<and>
        0 \<le> snd (splitPoints (p_smartSpacing params) (p_contrast params \<noteq> 1) 10
               (fp_normalizedArcLength fp)) \<and>
        fst (splitPoints (p_smartSpacing params) (p_contrast params \<noteq> 1) 10
               (fp_normalizedArcLength fp)) +
        snd (splitPoints (p_smartSpacing params) (p_contrast params \<noteq> 1) 10
               (fp_normalizedArcLength fp)) = 10 - 1"
    by (rule split_sides[OF r]) simp
  have "int (length before) + int (length after) = 9"
    using side_ok_length[OF b] side_ok_length[OF a] s unfolding assms(2) by simp
  then have "length before + length after = 9" by linarith
  then have "length (colors res) = 12" using c assms(1) by simp
  moreover have "hd (colors res) = blackSwatch" "last (colors res) = whiteSwatch"
    using c assms(1) by simp_all
  ultimately show ?thesis using g black_white_facts by simp
qed

theorem black_white_endpoints_witness:
  "p_includeBlackWhite \<lparr>p_hue = 220, p_saturation = 81, p_value = 78, p_colorCount = 10,
      p_contrast = 1, p_smartSpacing = False, p_includeBlackWhite = True,
      p_saturationControl = None\<rparr> \<and>
   p_colorCount \<lparr>p_hue = 220, p_saturation = 81, p_value = 78, p_colorCount = 10,
      p_contrast = 1, p_smartSpacing = False, p_includeBlackWhite = True,
      p_saturationControl = None\<rparr> = 10 \<and>
   (\<exists>res. generatePalette \<lparr>p_hue = 220, p_saturation = 81, p_value = 78, p_colorCount = 10,
      p_contrast = 1, p_smartSpacing = False, p_includeBlackWhite = True,
      p_saturationControl = None\<rparr> = Inr res \<and> length (colors res) = 12 \<and>
      hd (colors res) = blackSwatch \<and> last (colors res) = whiteSwatch)"
  using black_white_endpoints [of "\<lparr>p_hue = 220, p_saturation = 81, p_value = 78,
      p_colorCount = 10, p_contrast = 1, p_smartSpacing = False, p_includeBlackWhite = True,
      p_saturationControl = None\<rparr>"]
  by auto








section \<open>An anchor at the start of its curve\<close>












section \<open>Arc lengths of a generated palette\<close>





section \<open>Smart spacing and contrast\<close>


















section \<open>The bisection of findExponent\<close>

lemma tenth_root_le:
  fixes a b :: real
  assumes "0 \<le> b" "b ^ 10 \<le> a"
  shows "b \<le> a powr (1 / 10)"
proof -
  have "(b powr 10) powr (1 / 10) = b powr (10 * (1 / 10))" by (rule powr_powr)
  then have "(b powr 10) powr (1 / 10) = b" using assms(1) by simp
  moreover have "b powr 10 = b ^ 10" using assms(1) by simp
  ultimately have "b = (b ^ 10) powr (1 / 10)" by simp
  also have "\<dots> \<le> a powr (1 / 10)" using assms by (intro powr_mono2) simp_all
  finally show ?thesis .
qed

lemma exp_ten: "(1000 :: real) \<le> exp 10"
proof -
  have "(2 :: real) \<le> exp 1" using exp_ge_add_one_self[of "1 :: real"] by simp
  then have "(2 :: real) ^ 10 \<le> exp 1 ^ 10" by (intro power_mono) simp_all
  moreover have "exp (10 :: real) = exp 1 ^ 10"
    using exp_of_nat_mult[of 10 "1 :: real"] by simp
  ultimately show ?thesis by simp
qed

lemma ln_lower:
  fixes x :: real
  assumes "1 / 1000 < x"
  shows "- 10 \<le> ln x"
proof -
  have "exp (- 10 :: real) = 1 / exp 10" by (simp add: exp_minus field_simps)
  also have "\<dots> \<le> 1 / 1000" using exp_ten by (intro divide_left_mono) simp_all
  finally have "exp (- 10) \<le> x" using assms by linarith
  moreover have "0 < x" using assms by linarith
  ultimately show ?thesis by (simp add: ln_ge_iff)
qed

lemma powr_drop:
  fixes x a b :: real
  assumes "1 / 1000 < x" "x < 1" "0 \<le> a" "a \<le> b"
  shows "0 \<le> x powr a - x powr b \<and> x powr a - x powr b \<le> 10 * (b - a)"
proof -
  have x0: "0 < x" using assms(1) by linarith
  have m: "x powr b \<le> x powr a" using assms x0 by (intro powr_mono') simp_all
  have e: "x powr b = x powr a * x powr (b - a)" by (simp add: powr_add[symmetric])
  have le1: "x powr a \<le> 1" using assms x0 by (intro powr_le1) simp_all
  have "1 + (b - a) * ln x \<le> exp ((b - a) * ln x)" by (rule exp_ge_add_one_self)
  then have "1 + (b - a) * ln x \<le> x powr (b - a)" using x0 by (simp add: powr_def)
  then have d: "1 - x powr (b - a) \<le> (b - a) * (- ln x)" by (simp add: algebra_simps)
  have "(b - a) * (- ln x) \<le> (b - a) * 10"
    using ln_lower[OF assms(1)] assms(4) by (intro mult_left_mono) simp_all
  then have d': "1 - x powr (b - a) \<le> 10 * (b - a)" using d by linarith
  have n: "0 \<le> 1 - x powr (b - a)" using assms x0 by (simp add: powr_le1)
  have "x powr a - x powr b = x powr a * (1 - x powr (b - a))" by (simp add: e algebra_simps)
  also have "\<dots> \<le> 1 * (1 - x powr (b - a))" using le1 n by (intro mult_right_mono) simp_all
  finally have "x powr a - x powr b \<le> 1 - x powr (b - a)" by simp
  then have "x powr a - x powr b \<le> 10 * (b - a)" using d' by linarith
  then show ?thesis using m by simp
qed

lemma residual_drop:
  assumes "1 / 1000 < x" "x < 1" "1 / 1000 < y" "y < 1" "0 < a" "a \<le> b"
  shows "residual x y b \<le> residual x y a \<and> residual x y a - residual x y b \<le> 20 * (b - a)"
proof -
  have a0: "0 \<le> a" using assms(5) by simp
  have r: "residual x y a = x powr a + y powr a - 1" "residual x y b = x powr b + y powr b - 1"
    using assms(5,6) by (simp_all add: residual_def Math_pow_def)
  show ?thesis unfolding r
    using powr_drop[OF assms(1,2) a0 assms(6)] powr_drop[OF assms(3,4) a0 assms(6)]
    by linarith
qed

lemma residual_start:
  assumes "1 / 1000 < x" "1 / 1000 < y"
  shows "0 < residual x y (1 / 10)"
proof -
  have hx: "(1 / 1024 :: real) powr (1 / 10) < x powr (1 / 10)"
    using assms(1) by (intro powr_less_mono2) simp_all
  have hy: "(1 / 1024 :: real) powr (1 / 10) < y powr (1 / 10)"
    using assms(2) by (intro powr_less_mono2) simp_all
  have "(1 / 2 :: real) \<le> (1 / 1024) powr (1 / 10)"
    by (rule tenth_root_le) (simp_all add: power_divide)
  then show ?thesis using hx hy by (simp add: residual_def Math_pow_def)
qed

lemma bisect_unfold:
  "bisect x y (Suc k) nMin nMax =
     (if \<bar>residual x y ((nMin + nMax) / 2)\<bar> < 1 / 1000 then min ((nMin + nMax) / 2) 25
      else if residual x y ((nMin + nMax) / 2) * residual x y nMin < 0
           then bisect x y k nMin ((nMin + nMax) / 2)
           else bisect x y k ((nMin + nMax) / 2) nMax)"
  by (simp add: Let_def residual_def SUPERELLIPSE_TOLERANCE_def SUPERELLIPSE_N_MAX_def)

lemma bisect_close:
  assumes "1 / 1000 < x" "x < 1" "1 / 1000 < y" "y < 1"
  shows "1 / 10 \<le> lo \<Longrightarrow> lo < hi \<Longrightarrow> hi \<le> 25 \<Longrightarrow> 0 < residual x y lo \<Longrightarrow>
         residual x y hi < 9 / 1000 \<Longrightarrow> 20000 * (hi - lo) < 2 ^ k \<Longrightarrow>
         lo \<le> bisect x y k lo hi \<and> bisect x y k lo hi \<le> hi \<and>
         \<bar>residual x y (bisect x y k lo hi)\<bar> < 1 / 100"
proof (induction k arbitrary: lo hi)
  case 0
  define m where "m = (lo + hi) / 2"
  have b: "bisect x y 0 lo hi = m" using 0 by (simp add: m_def SUPERELLIPSE_N_MAX_def)
  have lm: "lo \<le> m" "m \<le> hi" using 0 by (simp_all add: m_def)
  have lo0: "0 < lo" using 0 by linarith
  have m0: "0 < m" using lm lo0 by linarith
  have d1: "residual x y m \<le> residual x y lo \<and> residual x y lo - residual x y m \<le> 20 * (m - lo)"
    by (rule residual_drop[OF assms lo0 lm(1)])
  have d2: "residual x y hi \<le> residual x y m \<and> residual x y m - residual x y hi \<le> 20 * (hi - m)"
    by (rule residual_drop[OF assms m0 lm(2)])
  have w: "20 * (hi - lo) < 1 / 1000" using 0 by simp
  have "20 * (m - lo) + 20 * (hi - m) = 20 * (hi - lo)" by (simp add: algebra_simps)
  then have "- (1 / 100) < residual x y m \<and> residual x y m < 1 / 100"
    using d1 d2 w 0(4,5) by linarith
  then have "\<bar>residual x y m\<bar> < 1 / 100" by linarith
  then show ?case unfolding b using lm by simp
next
  case (Suc k)
  define m where "m = (lo + hi) / 2"
  have lm: "lo < m" "m < hi" using Suc.prems by (simp_all add: m_def)
  have w: "20000 * (m - lo) < 2 ^ k" "20000 * (hi - m) < 2 ^ k"
    using Suc.prems(6) by (simp_all add: m_def field_simps)
  note u = bisect_unfold[of x y k lo hi, folded m_def]
  show ?case
  proof (cases "\<bar>residual x y m\<bar> < 1 / 1000")
    case True
    then have "bisect x y (Suc k) lo hi = m"
      using lm Suc.prems(3) by (simp add: u del: bisect.simps)
    then show ?thesis using True lm by simp
  next
    case False
    show ?thesis
    proof (cases "residual x y m * residual x y lo < 0")
      case True
      then have neg: "residual x y m < 0" using Suc.prems(4) by (simp add: mult_less_0_iff)
      have b: "bisect x y (Suc k) lo hi = bisect x y k lo m"
        using False True by (simp add: u del: bisect.simps)
      have "lo \<le> bisect x y k lo m \<and> bisect x y k lo m \<le> m \<and>
            \<bar>residual x y (bisect x y k lo m)\<bar> < 1 / 100"
        using Suc.prems lm neg w by (intro Suc.IH) simp_all
      then show ?thesis unfolding b using lm by simp
    next
      case F2: False
      then have "0 \<le> residual x y m" using Suc.prems(4) by (simp add: mult_less_0_iff not_less)
      then have pos: "0 < residual x y m" using False by simp
      have b: "bisect x y (Suc k) lo hi = bisect x y k m hi"
        using False F2 by (simp add: u del: bisect.simps)
      have "m \<le> bisect x y k m hi \<and> bisect x y k m hi \<le> hi \<and>
            \<bar>residual x y (bisect x y k m hi)\<bar> < 1 / 100"
        using Suc.prems lm pos w by (intro Suc.IH) simp_all
      then show ?thesis unfolding b using lm by simp
    qed
  qed
qed

lemma near_corner_residual:
  fixes x y :: real
  assumes "99 / 100 \<le> x" "99 / 100 \<le> y"
  shows "9 / 1000 \<le> x powr 25 + y powr 25 - 1"
proof -
  have c: "(51 / 100 :: real) \<le> (99 / 100) ^ 25" by (simp add: power_divide)
  have "(99 / 100 :: real) powr 25 \<le> x powr 25" using assms(1) by (intro powr_mono2) simp_all
  moreover have "(99 / 100 :: real) powr 25 \<le> y powr 25"
    using assms(2) by (intro powr_mono2) simp_all
  moreover have "(99 / 100 :: real) powr 25 = (99 / 100) ^ 25" by simp
  ultimately show ?thesis using c by linarith
qed

text \<open>
  Claim C1, as the code has it. For \<open>0.001 < x < 1\<close> and \<open>0.001 < y < 1\<close> with
  \<open>x^25 + y^25 < 1.009\<close> (in particular whenever the curve through the point has an
  exponent of at most \<open>N_MAX = 25\<close>), \<open>findExponent\<close> returns an exponent \<open>n\<close> between
  0.1 and 25 with \<open>\<bar>x^n + y^n - 1\<bar> < 0.01\<close>: either the loop leaves early within the
  tolerance, or after 100 halvings the bracket around the root is narrower than
  \<open>25 / 2^100\<close>.
\<close>

theorem findExponent_residual:
  assumes "1 / 1000 < x" "x < 1" "1 / 1000 < y" "y < 1"
    and "Math_pow x 25 + Math_pow y 25 - 1 < 9 / 1000"
  shows "1 / 10 \<le> findExponent x y \<and> findExponent x y \<le> 25 \<and>
         \<bar>Math_pow x (findExponent x y) + Math_pow y (findExponent x y) - 1\<bar> < 1 / 100"
proof -
  have r25: "residual x y 25 < 9 / 1000" using assms(5) by (simp add: residual_def)
  have "\<not> (99 / 100 \<le> x \<and> 99 / 100 \<le> y)"
    using near_corner_residual[of x y] assms(5) by (auto simp: Math_pow_def)
  then have fe: "findExponent x y = bisect x y 100 (1 / 10) 25"
    using assms(1,3)
    by (auto simp add: findExponent_def Let_def SUPERELLIPSE_N_MIN_def SUPERELLIPSE_N_MAX_def
        SUPERELLIPSE_MAX_ITERATIONS_def simp del: bisect.simps)
  have "1 / 10 \<le> bisect x y 100 (1 / 10) 25 \<and> bisect x y 100 (1 / 10) 25 \<le> 25 \<and>
        \<bar>residual x y (bisect x y 100 (1 / 10) 25)\<bar> < 1 / 100"
    using residual_start[OF assms(1,3)] r25
    by (intro bisect_close[OF assms(1-4)]) simp_all
  then show ?thesis unfolding fe by (simp add: residual_def)
qed

theorem findExponent_residual_witness:
  "(1 / 1000 :: real) < 1 / 2 \<and> (1 / 2 :: real) < 1 \<and>
   Math_pow (1 / 2) 25 + Math_pow (1 / 2) 25 - 1 < 9 / 1000 \<and>
   1 / 10 \<le> findExponent (1 / 2) (1 / 2) \<and> findExponent (1 / 2) (1 / 2) \<le> 25 \<and>
   \<bar>Math_pow (1 / 2) (findExponent (1 / 2) (1 / 2)) +
     Math_pow (1 / 2) (findExponent (1 / 2) (1 / 2)) - 1\<bar> < 1 / 100"
proof -
  have h: "Math_pow (1 / 2) 25 + Math_pow (1 / 2) 25 - 1 < 9 / 1000"
    by (simp add: Math_pow_def power_divide)
  show ?thesis using findExponent_residual [of "1 / 2" "1 / 2"] h by simp
qed

text \<open>
  Claim C1 as stated fails outside that range. For \<open>x = y = 0.995\<close> the guard for
  points near the corner returns \<open>N_MAX = 25\<close>, where \<open>x^n + y^n - 1 > 0.5\<close>; for
  \<open>x = 0.0005\<close>, \<open>y = 0.5\<close> the guard for points near an axis returns
  \<open>N_MIN = 0.1\<close>, where \<open>x^n + y^n - 1 > 0.3\<close>.
\<close>

theorem findExponent_guards_miss:
  "(0 :: real) < 199 / 200 \<and> (199 / 200 :: real) < 1 \<and>
   \<not> \<bar>Math_pow (199 / 200) (findExponent (199 / 200) (199 / 200)) +
       Math_pow (199 / 200) (findExponent (199 / 200) (199 / 200)) - 1\<bar> < 1 / 100 \<and>
   (0 :: real) < 1 / 2000 \<and> (1 / 2000 :: real) < 1 \<and> (0 :: real) < 1 / 2 \<and> (1 / 2 :: real) < 1 \<and>
   \<not> \<bar>Math_pow (1 / 2000) (findExponent (1 / 2000) (1 / 2)) +
       Math_pow (1 / 2) (findExponent (1 / 2000) (1 / 2)) - 1\<bar> < 1 / 100"
proof -
  have e1: "findExponent (199 / 200) (199 / 200) = 25"
    by (simp add: findExponent_def SUPERELLIPSE_N_MAX_def)
  have c: "(3 / 4 :: real) \<le> (199 / 200) ^ 25" by (simp add: power_divide)
  have p1: "Math_pow (199 / 200) 25 = (199 / 200) ^ 25" by (simp add: Math_pow_def)
  have 1: "\<not> \<bar>Math_pow (199 / 200) 25 + Math_pow (199 / 200) 25 - 1\<bar> < 1 / 100"
    unfolding p1 using c by linarith
  have e2: "findExponent (1 / 2000) (1 / 2) = 1 / 10"
    by (simp add: findExponent_def SUPERELLIPSE_N_MIN_def)
  have a: "(2 / 5 :: real) \<le> (1 / 2000) powr (1 / 10)"
    by (rule tenth_root_le) (simp_all add: power_divide)
  have b: "(9 / 10 :: real) \<le> (1 / 2) powr (1 / 10)"
    by (rule tenth_root_le) (simp_all add: power_divide)
  have p2: "Math_pow (1 / 2000) (1 / 10) = (1 / 2000) powr (1 / 10)"
           "Math_pow (1 / 2) (1 / 10) = (1 / 2) powr (1 / 10)"
    by (simp_all add: Math_pow_def)
  have 2: "\<not> \<bar>Math_pow (1 / 2000) (1 / 10) + Math_pow (1 / 2) (1 / 10) - 1\<bar> < 1 / 100"
    unfolding p2 using a b by linarith
  show ?thesis unfolding e1 e2 using 1 2 by simp
qed

end
